theory Spec2Isabelle
  imports Main "HOL-Library.Sublist"
begin

section \<open>Values of cmd/vault.go\<close>

text \<open>
  A Go \<^verbatim>\<open>error\<close> returned by the Vault or Kubernetes client is represented by the
  text that \<^verbatim>\<open>fmt.Sprintf("%s", err)\<close> prints for it, which is all the program ever
  inspects. A \<^verbatim>\<open>nil\<close> error is \<open>None\<close> of \<open>error option\<close>.
\<close>

type_synonym error = string

text \<open>\<^verbatim>\<open>api.Secret\<close>: the program never looks inside one; the lease fields are kept.\<close>

record Secret =
  LeaseID :: string
  LeaseDuration :: int
  Renewable :: bool

text \<open>\<^verbatim>\<open>api.Config\<close> and \<^verbatim>\<open>api.Client\<close>: the address and the token the client sends.\<close>

record Config =
  CfgAddress :: string

record Client =
  Address :: string
  Token :: string

text \<open>An entry of \<^verbatim>\<open>config.Secrets\<close>.\<close>

record SecretRequest =
  Key :: string
  Path :: string
  IsMissingOk :: bool

text \<open>
  \<^verbatim>\<open>jww.FATAL.Fatalf\<close> prints and ends the process. Each call site that can be reached
  is a constructor, so a run that ends there is the value \<open>Inl\<close> of it; a function that
  returns is \<open>Inr\<close>. \<open>NilClientPanic\<close> is the run-time panic of line 72, which ends the
  process as well: the arguments of that \<^verbatim>\<open>Fatalf\<close> call the method \<^verbatim>\<open>Address\<close> on the
  \<^verbatim>\<open>nil\<close> client, so the \<^verbatim>\<open>Fatalf\<close> itself never runs.
\<close>

datatype fatal =
    NilClientPanic
  | CouldNotExtractToken error
  | FailedLeaseToken error
  | FailedCommandLineToken error
  | FailedEnvToken error
  | FailedConfigMapToken error
  | NoAuthenticationMechanism
  | DuplicateSecretKey string
  | ErrorFetchingSecret string error
  | NoResponseReturned

section \<open>String helpers of the Go library\<close>

text \<open>\<^verbatim>\<open>strings.HasPrefix(s, prefix)\<close>.\<close>

fun HasPrefix :: "string \<Rightarrow> string \<Rightarrow> bool" where
  "HasPrefix s [] = True"
| "HasPrefix [] (p # ps) = False"
| "HasPrefix (c # s) (p # ps) = (c = p \<and> HasPrefix s ps)"

text \<open>\<^verbatim>\<open>strings.Contains(s, substr)\<close>: \<open>substr\<close> occurs in \<open>s\<close> as a contiguous block.\<close>

fun Contains :: "string \<Rightarrow> string \<Rightarrow> bool" where
  "Contains [] substr = (substr = [])"
| "Contains (c # s) substr = (HasPrefix (c # s) substr \<or> Contains s substr)"

section \<open>readKVSecrets\<close>

text \<open>
  What \<^verbatim>\<open>readKVSecrets\<close> reads from outside itself: the configuration
  (\<^verbatim>\<open>config.Secrets\<close>, \<^verbatim>\<open>*serviceSecretPrefix\<close>), the library function
  \<^verbatim>\<open>filepath.Join\<close>, the Vault call \<^verbatim>\<open>client.Logical().Read\<close> and the lease registry's
  \<^verbatim>\<open>enrollSecretInLease\<close> (defined in another file of the package). The Vault server and
  the lease registry are a state \<open>'w\<close> that every call may change; \<open>Read\<close> returns the
  pair \<^verbatim>\<open>(response, err)\<close> of the Go call.
\<close>

record 'w kv_env =
  Secrets :: "SecretRequest list"
  serviceSecretPrefix :: string
  Join :: "string \<Rightarrow> string \<Rightarrow> string"
  Read :: "Client \<Rightarrow> string \<Rightarrow> 'w \<Rightarrow> (Secret option \<times> error option) \<times> 'w"
  enrollSecretInLease :: "Secret \<Rightarrow> 'w \<Rightarrow> 'w"

text \<open>A \<^verbatim>\<open>Read\<close> call that was issued: the path it was given and what came back.\<close>

type_synonym read_event = "string \<times> Secret option \<times> error option"

text \<open>Lines 247 to 253: the path handed to the store for a request.\<close>

definition secretPath :: "'w kv_env \<Rightarrow> SecretRequest \<Rightarrow> string" where
  "secretPath env request =
     (if \<not> HasPrefix (Path request) ''/''
      then Join env (serviceSecretPrefix env) (Path request)
      else Path request)"

text \<open>Puts an event in front of the events of the rest of a run.\<close>

definition emit :: "'e \<Rightarrow> 'r \<times> 'w \<times> 'e list \<Rightarrow> 'r \<times> 'w \<times> 'e list" where
  "emit e x = (case x of (r, w, tr) \<Rightarrow> (r, w, e # tr))"

text \<open>
  The \<^verbatim>\<open>for\<close> loop of lines 241 to 278 over the remaining requests, with the mapping
  built so far. The result is the mapping or the fatal exit, the state afterwards and
  the \<^verbatim>\<open>Read\<close> calls issued, in order. The log lines below FATAL are left out: they
  do not change what the loop does.
\<close>

fun readKVLoop ::
  "'w kv_env \<Rightarrow> Client \<Rightarrow> SecretRequest list \<Rightarrow> (string \<rightharpoonup> Secret) \<Rightarrow> 'w
     \<Rightarrow> (fatal + (string \<rightharpoonup> Secret)) \<times> 'w \<times> read_event list" where
  "readKVLoop env client [] vaultSecretsMapping w = (Inr vaultSecretsMapping, w, [])"
| "readKVLoop env client (request # rest) vaultSecretsMapping w =
     (let key = Key request; path = secretPath env request in
      if vaultSecretsMapping key \<noteq> None then (Inl (DuplicateSecretKey key), w, [])
      else
        (case Read env client path w of
           ((response, Some err), w') \<Rightarrow>
             (Inl (ErrorFetchingSecret path err), w', [(path, response, Some err)])
         | ((None, None), w') \<Rightarrow>
             (if IsMissingOk request
              then emit (path, None, None) (readKVLoop env client rest vaultSecretsMapping w')
              else (Inl NoResponseReturned, w', [(path, None, None)]))
         | ((Some response, None), w') \<Rightarrow>
             emit (path, Some response, None)
               (readKVLoop env client rest (vaultSecretsMapping(key \<mapsto> response))
                  (enrollSecretInLease env response w'))))"

definition readKVSecrets ::
  "'w kv_env \<Rightarrow> Client \<Rightarrow> 'w \<Rightarrow> (fatal + (string \<rightharpoonup> Secret)) \<times> 'w \<times> read_event list" where
  "readKVSecrets env client w = readKVLoop env client (Secrets env) Map.empty w"

text \<open>Puts the events of an earlier part of a run in front of a later part's.\<close>

definition prepend :: "'e list \<Rightarrow> 'r \<times> 'w \<times> 'e list \<Rightarrow> 'r \<times> 'w \<times> 'e list" where
  "prepend es x = (case x of (r, w, tr) \<Rightarrow> (r, w, es @ tr))"

section \<open>revokeSelf\<close>

text \<open>
  \<^verbatim>\<open>revokeSelf\<close> returns nothing: what it does is the \<^verbatim>\<open>RevokeSelf\<close> call on the Vault
  and its log lines, so here the log lines are kept, each with its level, its format
  string and the arguments printed into it.
\<close>

datatype level = DEBUG | INFO | ERROR

type_synonym log_line = "level \<times> string \<times> string list"

text \<open>\<^verbatim>\<open>client.Auth().Token().RevokeSelf(token)\<close>: the error it returns and the Vault afterwards.\<close>

record 'w revoke_env =
  RevokeSelf :: "Client \<Rightarrow> string \<Rightarrow> 'w \<Rightarrow> error option \<times> 'w"

text \<open>Lines 32 to 38. The function has no \<^verbatim>\<open>Fatalf\<close> and no result, so it ends in \<open>Inr ()\<close>.\<close>

definition revokeSelf ::
  "'w revoke_env \<Rightarrow> Client \<Rightarrow> 'w \<Rightarrow> (fatal + unit) \<times> 'w \<times> log_line list" where
  "revokeSelf env client w =
     emit (DEBUG, ''Revoking Vault token.'', [])
       (case RevokeSelf env client (Token client) w of
          (Some err, w') \<Rightarrow>
            (Inr (), w',
             [(ERROR, ''Failed to revoke Vault token. This will leave credentials around in %q Vault: %v'',
               [Address client, err])])
        | (None, w') \<Rightarrow> (Inr (), w', []))"

section \<open>renewSelf\<close>

text \<open>Line 23.\<close>

definition ErrPermissionDenied :: error where
  "ErrPermissionDenied = ''permission denied''"

text \<open>Lines 283 to 286; \<^verbatim>\<open>errorString\<close> is the error as \<^verbatim>\<open>%s\<close> prints it.\<close>

definition checkPermissionDenied :: "error \<Rightarrow> bool" where
  "checkPermissionDenied err = (let errorString = err in Contains errorString ''Code: 403'')"

text \<open>
  What the closure \<^verbatim>\<open>op\<close> hands to \<^verbatim>\<open>backoff.Retry\<close> when it fails: the Vault client's
  error as it is, or an error wrapped by \<^verbatim>\<open>backoff.Permanent\<close>.
\<close>

datatype op_error = Plain error | Permanent error

text \<open>
  \<^verbatim>\<open>Seconds\<close> is \<^verbatim>\<open>int(duration.Seconds())\<close>, a floating point conversion of the
  duration (in nanoseconds) that is not modelled further. \<^verbatim>\<open>RenewSelf\<close> is the Vault call,
  \<^verbatim>\<open>enrollAuthTokenInLease\<close> belongs to the lease registry, in another file of the package.
\<close>

record 'w renew_env =
  Seconds :: "int \<Rightarrow> int"
  RenewSelf :: "Client \<Rightarrow> int \<Rightarrow> 'w \<Rightarrow> (Secret option \<times> error option) \<times> 'w"
  enrollAuthTokenInLease :: "Secret option \<Rightarrow> 'w \<Rightarrow> 'w"

text \<open>A \<^verbatim>\<open>RenewSelf\<close> call that was issued: the increment it asked for and what came back.\<close>

type_synonym renew_event = "int \<times> Secret option \<times> error option"

text \<open>Lines 42 to 56: one renewal attempt.\<close>

definition op ::
  "'w renew_env \<Rightarrow> Client \<Rightarrow> int \<Rightarrow> 'w \<Rightarrow> op_error option \<times> 'w \<times> renew_event list" where
  "op env client duration w =
     (case RenewSelf env client (Seconds env duration) w of
        ((secret, Some err), w') \<Rightarrow>
          (if checkPermissionDenied err
           then (Some (Permanent ErrPermissionDenied), w', [(Seconds env duration, secret, Some err)])
           else (Some (Plain err), w', [(Seconds env duration, secret, Some err)]))
      | ((secret, None), w') \<Rightarrow>
          (None, enrollAuthTokenInLease env secret w', [(Seconds env duration, secret, None)]))"

text \<open>
  What the retry policy finds when it is asked to go on after a failed attempt: it waits
  and tries again, or the context is cancelled. The policy of \<^verbatim>\<open>defaultRetryStrategy\<close>
  under a context, as it unfolds on the clock, is the list of these answers; when the list
  is used up the maximum elapsed time is exceeded. Delays and jitter are not modelled.
\<close>

datatype tick = Wait | Cancel

datatype retry_error = OperationError error | TimedOut | ContextCancelled

text \<open>
  Modelled from the spec: \<^verbatim>\<open>backoff.Retry\<close> of the library github.com/cenkalti/backoff,
  which is not among the sources. The specification's RetryPolicy (section 4.1) runs the
  operation again and again until it succeeds, or it signals a permanent failure (stop
  at once and surface that error), or the maximum elapsed time is exceeded (surface a
  timeout error); a cancellation aborts the loop before the next attempt with an error of
  its own. The events of all attempts are returned in order.
\<close>

fun Retry ::
  "('w \<Rightarrow> op_error option \<times> 'w \<times> 'e list) \<Rightarrow> tick list \<Rightarrow> 'w
     \<Rightarrow> retry_error option \<times> 'w \<times> 'e list" where
  "Retry operation backOff w =
     (case operation w of
        (None, w', es) \<Rightarrow> (None, w', es)
      | (Some (Permanent err), w', es) \<Rightarrow> (Some (OperationError err), w', es)
      | (Some (Plain err), w', es) \<Rightarrow>
          (case backOff of
             [] \<Rightarrow> (Some TimedOut, w', es)
           | Cancel # later \<Rightarrow> (Some ContextCancelled, w', es)
           | Wait # later \<Rightarrow> prepend es (Retry operation later w')))"

text \<open>
  Lines 40 to 61. \<open>backOff\<close> stands for
  \<^verbatim>\<open>backoff.WithContext(defaultRetryStrategy(duration), ctx)\<close>.
\<close>

definition renewSelf ::
  "'w renew_env \<Rightarrow> tick list \<Rightarrow> Client \<Rightarrow> int \<Rightarrow> 'w
     \<Rightarrow> retry_error option \<times> 'w \<times> renew_event list" where
  "renewSelf env backOff client duration w = Retry (op env client duration) backOff w"

section \<open>authenticateToVault\<close>

text \<open>A Kubernetes ConfigMap and the answer of the Vault to a raw request.\<close>

record ConfigMap =
  Name :: string
  Data :: "string \<rightharpoonup> string"

record Response =
  RespError :: "error option"
  Decode :: "error + Secret"

text \<open>
  What authentication reads from outside itself. The first six fields are values:
  \<^verbatim>\<open>leases.AuthTokenLease.Token\<close>, the flags \<^verbatim>\<open>*vaultTokenArg\<close>, \<^verbatim>\<open>*k8sAuthRole\<close>,
  \<^verbatim>\<open>*k8sLoginPath\<close> and \<^verbatim>\<open>*serviceAccountToken\<close>, and \<^verbatim>\<open>os.Getenv(api.EnvVaultToken)\<close>.
  The others are the answers of the calls of the same name on the Vault client, the
  Kubernetes client and the file system. Every one of them is called at most once in a
  run of \<^verbatim>\<open>authenticateToVault\<close>, so its answer does not depend on a state.
  \<^verbatim>\<open>InClusterConfig\<close> and \<^verbatim>\<open>NewForConfig\<close> give only their error: the program hands their
  values on without looking at them. \<^verbatim>\<open>Decode\<close> of a response is the JSON decoding of its
  body into a secret; \<^verbatim>\<open>RawRequest\<close> gets the client, the URL path and the two fields
  of the login body.
\<close>

record auth_env =
  leaseToken :: string
  vaultTokenArg :: string
  envVaultToken :: string
  k8sAuthRole :: string
  k8sLoginPath :: string
  serviceAccountToken :: string
  DefaultConfig :: Config
  NewClient :: "Config \<Rightarrow> error + Client"
  LookupSelf :: "Client \<Rightarrow> Secret option \<times> error option"
  InClusterConfig :: "error option"
  NewForConfig :: "error option"
  ListConfigMaps :: "error + ConfigMap list"
  ReadFile :: "string \<Rightarrow> error + string"
  SetJSONBody :: "string \<Rightarrow> string \<Rightarrow> error option"
  RawRequest :: "Client \<Rightarrow> string \<Rightarrow> string \<Rightarrow> string \<Rightarrow> error + Response"
  TokenID :: "Secret \<Rightarrow> error + string"

text \<open>
  The calls a run issues, in order: \<^verbatim>\<open>LookupSelfCall\<close> with the token the client sends,
  \<^verbatim>\<open>ReadFileCall\<close> with the file, \<^verbatim>\<open>LoginCall\<close> with the URL path, the JWT and the role.
\<close>

datatype call =
    NewClientCall
  | LookupSelfCall string
  | InClusterConfigCall
  | NewForConfigCall
  | ListConfigMapsCall
  | ReadFileCall string
  | LoginCall string string string

text \<open>The triple \<^verbatim>\<open>(*api.Client, *api.Secret, error)\<close> that the functions return.\<close>

type_synonym auth_result = "Client option \<times> Secret option \<times> error option"

text \<open>Puts calls in front of the calls of the rest of a run.\<close>

definition after :: "call list \<Rightarrow> 'r \<times> call list \<Rightarrow> 'r \<times> call list" where
  "after cs x = (case x of (r, cs') \<Rightarrow> (r, cs @ cs'))"

text \<open>
  Lines 63 to 112. When \<^verbatim>\<open>api.NewClient\<close> fails, the client is \<^verbatim>\<open>nil\<close> and line 72
  evaluates \<^verbatim>\<open>client.Address()\<close> before \<^verbatim>\<open>Fatalf\<close> is entered: the run panics there.
\<close>

definition performKubernetesAuth :: "auth_env \<Rightarrow> (fatal + auth_result) \<times> call list" where
  "performKubernetesAuth env =
     (let cfg = DefaultConfig env in
      after [NewClientCall]
        (case NewClient env cfg of
           Inl err \<Rightarrow> (Inl NilClientPanic, [])
         | Inr client \<Rightarrow>
             after [ReadFileCall (serviceAccountToken env)]
               (case ReadFile env (serviceAccountToken env) of
                  Inl err \<Rightarrow> (Inr (None, None, Some err), [])
                | Inr tokenBytes \<Rightarrow>
                    (case SetJSONBody env tokenBytes (k8sAuthRole env) of
                       Some err \<Rightarrow> (Inr (None, None, Some err), [])
                     | None \<Rightarrow>
                         after [LoginCall (''/v1/auth/'' @ k8sLoginPath env @ ''/login'')
                                  tokenBytes (k8sAuthRole env)]
                           (case RawRequest env client
                                   (''/v1/auth/'' @ k8sLoginPath env @ ''/login'')
                                   tokenBytes (k8sAuthRole env) of
                              Inl err \<Rightarrow> (Inr (None, None, Some err), [])
                            | Inr resp \<Rightarrow>
                                (case RespError resp of
                                   Some err \<Rightarrow> (Inr (None, None, Some err), [])
                                 | None \<Rightarrow>
                                     (case Decode resp of
                                        Inl err \<Rightarrow>
                                          (Inr (None, None, Some (''error parsing response: '' @ err)), [])
                                      | Inr secret \<Rightarrow>
                                          (case TokenID env secret of
                                             Inl err \<Rightarrow> (Inl (CouldNotExtractToken err), [])
                                           | Inr token \<Rightarrow>
                                               (Inr (Some (client\<lparr>Token := token\<rparr>), Some secret, None),
                                                [])))))))))"

text \<open>Lines 114 to 130.\<close>

definition performTokenAuth :: "auth_env \<Rightarrow> Config \<Rightarrow> string \<Rightarrow> auth_result \<times> call list" where
  "performTokenAuth env cfg vaultToken =
     after [NewClientCall]
       (case NewClient env cfg of
          Inl err \<Rightarrow> ((None, None, Some err), [])
        | Inr client \<Rightarrow>
            after [LookupSelfCall vaultToken]
              (case LookupSelf env (client\<lparr>Token := vaultToken\<rparr>) of
                 (secret, Some err) \<Rightarrow> ((None, None, Some err), [])
               | (secret, None) \<Rightarrow> ((Some (client\<lparr>Token := vaultToken\<rparr>), secret, None), [])))"

text \<open>
  What follows each \<^verbatim>\<open>performTokenAuth\<close> call in \<^verbatim>\<open>authenticateToVault\<close>: an error is
  fatal with the message of that place, otherwise \<^verbatim>\<open>client, secret, nil\<close> is returned.
\<close>

definition orFatal ::
  "(error \<Rightarrow> fatal) \<Rightarrow> auth_result \<times> call list \<Rightarrow> (fatal + auth_result) \<times> call list" where
  "orFatal mk x =
     (case x of
        ((client, secret, Some err), cs) \<Rightarrow> (Inl (mk err), cs)
      | ((client, secret, None), cs) \<Rightarrow> (Inr (client, secret, None), cs))"

text \<open>
  Lines 226 to 234, the end of \<^verbatim>\<open>authenticateToVault\<close> that every skipped ConfigMap
  branch falls through to.
\<close>

definition kubernetesAuthRole :: "auth_env \<Rightarrow> (fatal + auth_result) \<times> call list" where
  "kubernetesAuthRole env =
     (if k8sAuthRole env \<noteq> '''' then performKubernetesAuth env
      else (Inl NoAuthenticationMechanism, []))"

text \<open>Lines 137 to 235.\<close>

definition authenticateToVault :: "auth_env \<Rightarrow> (fatal + auth_result) \<times> call list" where
  "authenticateToVault env =
     (if leaseToken env \<noteq> ''''
      then orFatal FailedLeaseToken (performTokenAuth env (DefaultConfig env) (leaseToken env))
      else if vaultTokenArg env \<noteq> ''''
      then orFatal FailedCommandLineToken (performTokenAuth env (DefaultConfig env) (vaultTokenArg env))
      else if envVaultToken env \<noteq> ''''
      then orFatal FailedEnvToken (performTokenAuth env (DefaultConfig env) (envVaultToken env))
      else
        after [InClusterConfigCall]
          (case InClusterConfig env of
             Some err \<Rightarrow> kubernetesAuthRole env
           | None \<Rightarrow>
               after [NewForConfigCall]
                 (case NewForConfig env of
                    Some err \<Rightarrow> kubernetesAuthRole env
                  | None \<Rightarrow>
                      after [ListConfigMapsCall]
                        (case ListConfigMaps env of
                           Inl err \<Rightarrow> kubernetesAuthRole env
                         | Inr items \<Rightarrow>
                             (if length items = 1
                              then (case Data (items ! 0) ''token'' of
                                      Some token \<Rightarrow>
                                        orFatal FailedConfigMapToken
                                          (performTokenAuth env (DefaultConfig env) token)
                                    | None \<Rightarrow> kubernetesAuthRole env)
                              else kubernetesAuthRole env)))))"

section \<open>Example environments\<close>

text \<open>
  A small Vault for the examples: the state counts the reads, \<^verbatim>\<open>svc/absent\<close> holds
  nothing, every other path holds a secret.
\<close>

definition demo_client :: Client where
  "demo_client = \<lparr>Address = ''https://vault:8200'', Token = ''s.token''\<rparr>"

definition demo_secret :: "string \<Rightarrow> Secret" where
  "demo_secret p = \<lparr>LeaseID = p, LeaseDuration = 60, Renewable = False\<rparr>"

definition demo_Read :: "Client \<Rightarrow> string \<Rightarrow> nat \<Rightarrow> (Secret option \<times> error option) \<times> nat" where
  "demo_Read c path w =
     (if path = ''svc/absent'' then (None, None) else (Some (demo_secret path), None), Suc w)"

definition demo_env :: "SecretRequest list \<Rightarrow> nat kv_env" where
  "demo_env rs = \<lparr>Secrets = rs, serviceSecretPrefix = ''svc'',
     Join = (\<lambda>a b. a @ ''/'' @ b), Read = demo_Read, enrollSecretInLease = (\<lambda>s w. w)\<rparr>"

definition req :: "string \<Rightarrow> string \<Rightarrow> bool \<Rightarrow> SecretRequest" where
  "req k p ok = \<lparr>Key = k, Path = p, IsMissingOk = ok\<rparr>"

definition dup_requests :: "SecretRequest list" where
  "dup_requests = [req ''db'' ''/a'' False, req ''db'' ''/b'' False]"

definition shadowed_requests :: "SecretRequest list" where
  "shadowed_requests = [req ''db'' ''absent'' True, req ''db'' ''/b'' False]"

definition optional_requests :: "SecretRequest list" where
  "optional_requests = [req ''a'' ''/a'' False, req ''opt'' ''absent'' True, req ''b'' ''/b'' False]"

definition strict_requests :: "SecretRequest list" where
  "strict_requests = [req ''a'' ''/a'' False, req ''opt'' ''absent'' False, req ''b'' ''/b'' False]"

text \<open>
  A Vault for renewal whose first answer is a network error and whose later answers are
  a 403; one that only ever says \<^verbatim>\<open>permission denied\<close>; and one whose revoke call fails.
  The state counts the calls.
\<close>

definition demo_RenewSelf :: "Client \<Rightarrow> int \<Rightarrow> nat \<Rightarrow> (Secret option \<times> error option) \<times> nat" where
  "demo_RenewSelf c increment w =
     (if w = 0 then (None, Some ''connection reset by peer'')
      else (None, Some ''Error making API request. Code: 403. Errors: * permission denied''),
      Suc w)"

definition demo_renew_env :: "nat renew_env" where
  "demo_renew_env = \<lparr>Seconds = (\<lambda>d. d div 1000000000), RenewSelf = demo_RenewSelf,
     enrollAuthTokenInLease = (\<lambda>s w. w)\<rparr>"

definition plain_denial_env :: "nat renew_env" where
  "plain_denial_env = \<lparr>Seconds = (\<lambda>d. d div 1000000000),
     RenewSelf = (\<lambda>c increment w. ((None, Some ''permission denied''), Suc w)),
     enrollAuthTokenInLease = (\<lambda>s w. w)\<rparr>"

definition demo_revoke_env :: "nat revoke_env" where
  "demo_revoke_env = \<lparr>RevokeSelf = (\<lambda>c token w. (Some ''connection refused'', Suc w))\<rparr>"

text \<open>Environments for authentication.\<close>

definition demo_cfg :: Config where
  "demo_cfg = \<lparr>CfgAddress = ''https://vault:8200''\<rparr>"

definition anon_client :: Client where
  "anon_client = \<lparr>Address = ''https://vault:8200'', Token = ''''\<rparr>"

definition login_secret :: Secret where
  "login_secret = \<lparr>LeaseID = '''', LeaseDuration = 3600, Renewable = True\<rparr>"

text \<open>
  Outside a cluster, with a leases file, a command line token and \<^verbatim>\<open>VAULT_TOKEN\<close> all
  present; the Vault accepts every token.
\<close>

definition demo_auth_env :: auth_env where
  "demo_auth_env =
     \<lparr>leaseToken = ''s.lease'', vaultTokenArg = ''s.flag'', envVaultToken = ''s.env'',
      k8sAuthRole = ''app'', k8sLoginPath = ''kubernetes'',
      serviceAccountToken = ''/var/run/secrets/kubernetes.io/serviceaccount/token'',
      DefaultConfig = demo_cfg,
      NewClient = (\<lambda>cfg. Inr anon_client),
      LookupSelf = (\<lambda>c. (Some login_secret, None)),
      InClusterConfig = Some ''unable to load in-cluster configuration'',
      NewForConfig = None,
      ListConfigMaps = Inr [],
      ReadFile = (\<lambda>p. Inr ''jwt''),
      SetJSONBody = (\<lambda>jwt role. None),
      RawRequest = (\<lambda>c url jwt role. Inr \<lparr>RespError = None, Decode = Inr login_secret\<rparr>),
      TokenID = (\<lambda>s. Inr ''s.k8s'')\<rparr>"

text \<open>No token anywhere, inside a cluster whose \<^verbatim>\<open>vault-token\<close> ConfigMap holds a token.\<close>

definition cluster_auth_env :: auth_env where
  "cluster_auth_env =
     demo_auth_env\<lparr>leaseToken := '''', vaultTokenArg := '''', envVaultToken := '''',
       InClusterConfig := None,
       ListConfigMaps := Inr [\<lparr>Name = ''vault-token'', Data = [''token'' \<mapsto> ''s.configmap'']\<rparr>]\<rparr>"

text \<open>No token anywhere, outside a cluster.\<close>

definition outside_auth_env :: auth_env where
  "outside_auth_env =
     demo_auth_env\<lparr>leaseToken := '''', vaultTokenArg := '''', envVaultToken := ''''\<rparr>"

section \<open>Facts about the string helpers\<close>

lemma HasPrefix_prefix: "HasPrefix s p = prefix p s"
  by (induction s p rule: HasPrefix.induct) auto

lemma HasPrefix_slash: "HasPrefix s ''/'' = (take 1 s = ''/'')"
  by (cases s) auto

lemma Contains_sublist: "Contains s sub = sublist sub s"
  by (induction s) (auto simp: HasPrefix_prefix sublist_Cons_right)

section \<open>Facts about the fetch loop\<close>

lemma emit_eq: "emit e (r, w, tr) = (r, w, e # tr)"
  by (simp add: emit_def)

lemma emit_eq_iff: "emit e x = (r, w, tr) \<longleftrightarrow> (\<exists>tr'. x = (r, w, tr') \<and> tr = e # tr')"
  by (cases x) (auto simp: emit_def)

lemma prepend_emit: "prepend tr (emit e x) = prepend (tr @ [e]) x"
  by (cases x) (simp add: prepend_def emit_def)

lemma emit_prepend: "emit e (prepend tr x) = prepend (e # tr) x"
  by (cases x) (simp add: prepend_def emit_def)

lemma prepend_triple: "prepend tr (r, w, tr') = (r, w, tr @ tr')"
  by (simp add: prepend_def)

lemma prepend_eq_iff: "prepend es x = (r, w, tr) \<longleftrightarrow> (\<exists>tr'. x = (r, w, tr') \<and> tr = es @ tr')"
  by (cases x) (auto simp: prepend_def)

text \<open>The five ways one pass of the loop body can go.\<close>

lemma readKVLoop_dup:
  "m (Key r) \<noteq> None \<Longrightarrow> readKVLoop env c (r # rest) m w = (Inl (DuplicateSecretKey (Key r)), w, [])"
  by (simp add: Let_def)

lemma readKVLoop_err:
  "m (Key r) = None \<Longrightarrow> Read env c (secretPath env r) w = ((response, Some e), w1) \<Longrightarrow>
   readKVLoop env c (r # rest) m w =
     (Inl (ErrorFetchingSecret (secretPath env r) e), w1, [(secretPath env r, response, Some e)])"
  by (simp add: Let_def split: option.splits)

lemma readKVLoop_missing_fatal:
  "m (Key r) = None \<Longrightarrow> Read env c (secretPath env r) w = ((None, None), w1) \<Longrightarrow>
   \<not> IsMissingOk r \<Longrightarrow>
   readKVLoop env c (r # rest) m w = (Inl NoResponseReturned, w1, [(secretPath env r, None, None)])"
  by (simp add: Let_def)

lemma readKVLoop_missing_ok:
  "m (Key r) = None \<Longrightarrow> Read env c (secretPath env r) w = ((None, None), w1) \<Longrightarrow>
   IsMissingOk r \<Longrightarrow>
   readKVLoop env c (r # rest) m w =
     emit (secretPath env r, None, None) (readKVLoop env c rest m w1)"
  by (simp add: Let_def)

lemma readKVLoop_data:
  "m (Key r) = None \<Longrightarrow> Read env c (secretPath env r) w = ((Some s, None), w1) \<Longrightarrow>
   readKVLoop env c (r # rest) m w =
     emit (secretPath env r, Some s, None)
       (readKVLoop env c rest (m(Key r \<mapsto> s)) (enrollSecretInLease env s w1))"
  by (simp add: Let_def)

declare readKVLoop.simps(2) [simp del]

lemma readKVLoop_step [case_names duplicate failed missing skipped stored]:
  obtains
    "m (Key r) \<noteq> None"
    "\<And>rest. readKVLoop env c (r # rest) m w = (Inl (DuplicateSecretKey (Key r)), w, [])"
  | response e w1 where "m (Key r) = None"
    "\<And>rest. readKVLoop env c (r # rest) m w =
       (Inl (ErrorFetchingSecret (secretPath env r) e), w1, [(secretPath env r, response, Some e)])"
  | w1 where "m (Key r) = None" "\<not> IsMissingOk r"
    "\<And>rest. readKVLoop env c (r # rest) m w =
       (Inl NoResponseReturned, w1, [(secretPath env r, None, None)])"
  | w1 where "m (Key r) = None" "IsMissingOk r"
    "\<And>rest. readKVLoop env c (r # rest) m w =
       emit (secretPath env r, None, None) (readKVLoop env c rest m w1)"
  | s w1 where "m (Key r) = None"
    "\<And>rest. readKVLoop env c (r # rest) m w =
       emit (secretPath env r, Some s, None)
         (readKVLoop env c rest (m(Key r \<mapsto> s)) (enrollSecretInLease env s w1))"
proof (cases "m (Key r) = None")
  case False
  then show ?thesis using that(1) by (simp add: readKVLoop_dup)
next
  case nodup: True
  obtain response err w1 where rd: "Read env c (secretPath env r) w = ((response, err), w1)"
    by (metis surj_pair)
  show ?thesis
  proof (cases err)
    case (Some e)
    with nodup rd show ?thesis using that(2) by (simp add: readKVLoop_err)
  next
    case None
    with nodup rd show ?thesis
      using that(3) [of w1] that(4) [of w1] that(5) [of _ w1]
      by (cases response; cases "IsMissingOk r")
         (simp_all add: readKVLoop_missing_fatal readKVLoop_missing_ok readKVLoop_data)
  qed
qed

text \<open>The reads of a run go to the paths of the first requests, one each, in order.\<close>

lemma readKVLoop_paths:
  "readKVLoop env c rs m w = (res, w', tr) \<Longrightarrow>
     length tr \<le> length rs \<and> map fst tr = map (secretPath env) (take (length tr) rs)"
proof (induction rs arbitrary: m w tr)
  case Nil
  then show ?case by simp
next
  case (Cons r rs)
  from Cons.prems show ?case
    by (cases rule: readKVLoop_step [of m r env c w])
       (auto simp: emit_eq_iff dest: Cons.IH)
qed

text \<open>A run over a list that was cut in two is the run over the first part, then the second.\<close>

lemma readKVLoop_append:
  "readKVLoop env c pre m0 w0 = (Inr m, w, tr) \<Longrightarrow>
     readKVLoop env c (pre @ post) m0 w0 = prepend tr (readKVLoop env c post m w)"
proof (induction pre arbitrary: m0 w0 tr)
  case Nil
  then show ?case by (cases "readKVLoop env c post m w") (auto simp: prepend_def)
next
  case (Cons r pre)
  show ?case
  proof (cases rule: readKVLoop_step [of m0 r env c w0])
    case (skipped w1)
    with Cons.prems obtain tr' where
      run: "readKVLoop env c pre m0 w1 = (Inr m, w, tr')"
      and tr: "tr = (secretPath env r, None, None) # tr'"
      by (auto simp: emit_eq_iff)
    show ?thesis
      by (simp add: skipped(3) Cons.IH [OF run] tr emit_prepend)
  next
    case (stored s w1)
    with Cons.prems obtain tr' where
      run: "readKVLoop env c pre (m0(Key r \<mapsto> s)) (enrollSecretInLease env s w1) = (Inr m, w, tr')"
      and tr: "tr = (secretPath env r, Some s, None) # tr'"
      by (auto simp: emit_eq_iff)
    show ?thesis
      by (simp add: stored(2) Cons.IH [OF run] tr emit_prepend)
  qed (use Cons.prems in simp_all)
qed

lemma ex_less_Suc_shift: "(\<exists>i<Suc n. P i) \<longleftrightarrow> P 0 \<or> (\<exists>i<n. P (Suc i))"
  by (auto simp: less_Suc_eq_0_disj)

text \<open>
  The invariant of the loop: after a run that returns, every request has been read, and
  the keys of the mapping are those it started with and those of the requests whose
  read brought a response.
\<close>

lemma readKVLoop_success:
  "readKVLoop env c rs m0 w0 = (Inr m, w, tr) \<Longrightarrow>
     length tr = length rs \<and>
     (\<forall>k. m k \<noteq> None \<longleftrightarrow>
        m0 k \<noteq> None \<or> (\<exists>i<length rs. Key (rs ! i) = k \<and> fst (snd (tr ! i)) \<noteq> None))"
proof (induction rs arbitrary: m0 w0 tr)
  case Nil
  then show ?case by simp
next
  case (Cons r rs)
  show ?case
  proof (cases rule: readKVLoop_step [of m0 r env c w0])
    case (skipped w1)
    with Cons.prems obtain tr' where
      run: "readKVLoop env c rs m0 w1 = (Inr m, w, tr')"
      and tr: "tr = (secretPath env r, None, None) # tr'"
      by (auto simp: emit_eq_iff)
    from Cons.IH [OF run] show ?thesis
      by (simp add: tr ex_less_Suc_shift)
  next
    case (stored s w1)
    with Cons.prems obtain tr' where
      run: "readKVLoop env c rs (m0(Key r \<mapsto> s)) (enrollSecretInLease env s w1) = (Inr m, w, tr')"
      and tr: "tr = (secretPath env r, Some s, None) # tr'"
      by (auto simp: emit_eq_iff)
    from Cons.IH [OF run] show ?thesis
      by (auto simp: tr ex_less_Suc_shift)
  qed (use Cons.prems in simp_all)
qed

lemma readKVLoop_length:
  "readKVLoop env c rs m0 w0 = (Inr m, w, tr) \<Longrightarrow> length tr = length rs"
  by (drule readKVLoop_success) simp

lemma readKVLoop_dom:
  "readKVLoop env c rs m0 w0 = (Inr m, w, tr) \<Longrightarrow>
     m k \<noteq> None \<longleftrightarrow>
       m0 k \<noteq> None \<or> (\<exists>i<length rs. Key (rs ! i) = k \<and> fst (snd (tr ! i)) \<noteq> None)"
  by (drule readKVLoop_success) simp

text \<open>A key that is in the mapping stops the loop at the latest when a request has it.\<close>

lemma readKVLoop_present:
  "m k \<noteq> None \<Longrightarrow> j < length rs \<Longrightarrow> Key (rs ! j) = k \<Longrightarrow>
   readKVLoop env c rs m w = (res, w', tr) \<Longrightarrow> (\<exists>f. res = Inl f) \<and> length tr \<le> j"
proof (induction rs arbitrary: j m w tr)
  case Nil
  then show ?case by simp
next
  case (Cons r rs)
  have later: "\<exists>j'. j = Suc j'" if "m (Key r) = None"
    using that Cons.prems(1,3) by (cases j) auto
  show ?case
  proof (cases rule: readKVLoop_step [of m r env c w])
    case duplicate
    with Cons.prems(4) show ?thesis by auto
  next
    case (failed response e w1)
    with Cons.prems(4) later show ?thesis by auto
  next
    case (missing w1)
    with Cons.prems(4) later show ?thesis by auto
  next
    case (skipped w1)
    with Cons.prems(4) obtain tr' where
      run: "readKVLoop env c rs m w1 = (res, w', tr')" and tr: "tr = (secretPath env r, None, None) # tr'"
      by (auto simp: emit_eq_iff)
    from later skipped(1) obtain j' where j: "j = Suc j'" by blast
    from Cons.IH [OF Cons.prems(1) _ _ run, of j'] Cons.prems(2,3) j show ?thesis
      by (simp add: tr)
  next
    case (stored s w1)
    with Cons.prems(4) obtain tr' where
      run: "readKVLoop env c rs (m(Key r \<mapsto> s)) (enrollSecretInLease env s w1) = (res, w', tr')"
      and tr: "tr = (secretPath env r, Some s, None) # tr'"
      by (auto simp: emit_eq_iff)
    from later stored(1) obtain j' where j: "j = Suc j'" by blast
    have "(m(Key r \<mapsto> s)) k \<noteq> None" using Cons.prems(1) by simp
    from Cons.IH [OF this _ _ run, of j'] Cons.prems(2,3) j show ?thesis
      by (simp add: tr)
  qed
qed

text \<open>Once an earlier request of the same key has brought a response, the later one is not read.\<close>

lemma duplicate_key_inserted:
  "readKVLoop env c rs m w = (res, w', tr) \<Longrightarrow> i < j \<Longrightarrow> j < length rs \<Longrightarrow>
   Key (rs ! i) = Key (rs ! j) \<Longrightarrow> i < length tr \<Longrightarrow> fst (snd (tr ! i)) \<noteq> None \<Longrightarrow>
   (\<exists>f. res = Inl f) \<and> length tr \<le> j"
proof (induction rs arbitrary: i j m w tr)
  case Nil
  then show ?case by simp
next
  case (Cons r rs)
  from Cons.prems obtain j' where j: "j = Suc j'"
    by (cases j) auto
  show ?case
  proof (cases rule: readKVLoop_step [of m r env c w])
    case duplicate
    with Cons.prems(1,5) show ?thesis by simp
  next
    case (failed response e w1)
    with Cons.prems(1) j show ?thesis by auto
  next
    case (missing w1)
    with Cons.prems(1) j show ?thesis by auto
  next
    case (skipped w1)
    with Cons.prems(1) obtain tr' where
      run: "readKVLoop env c rs m w1 = (res, w', tr')"
      and tr: "tr = (secretPath env r, None, None) # tr'"
      by (auto simp: emit_eq_iff)
    from Cons.prems(6) tr obtain i' where i: "i = Suc i'"
      by (cases i) auto
    from Cons.IH [OF run, of i' j'] Cons.prems i j show ?thesis
      by (simp add: tr)
  next
    case (stored s w1)
    with Cons.prems(1) obtain tr' where
      run: "readKVLoop env c rs (m(Key r \<mapsto> s)) (enrollSecretInLease env s w1) = (res, w', tr')"
      and tr: "tr = (secretPath env r, Some s, None) # tr'"
      by (auto simp: emit_eq_iff)
    show ?thesis
    proof (cases i)
      case 0
      have "(m(Key r \<mapsto> s)) (Key r) \<noteq> None" by simp
      from readKVLoop_present [OF this _ _ run, of j'] Cons.prems 0 j show ?thesis
        by (simp add: tr)
    next
      case (Suc i')
      from Cons.IH [OF run, of i' j'] Cons.prems Suc j show ?thesis
        by (simp add: tr)
    qed
  qed
qed

text \<open>A read that fails, or brings nothing for a request without \<^verbatim>\<open>IsMissingOk\<close>, is the last.\<close>

lemma readKVLoop_failed_read_last:
  "readKVLoop env c rs m w = (res, w', tr) \<Longrightarrow> i < length tr \<Longrightarrow>
   snd (snd (tr ! i)) \<noteq> None \<or> (snd (tr ! i) = (None, None) \<and> \<not> IsMissingOk (rs ! i)) \<Longrightarrow>
   (\<exists>f. res = Inl f) \<and> length tr = Suc i"
proof (induction rs arbitrary: i m w tr)
  case Nil
  then show ?case by simp
next
  case (Cons r rs)
  show ?case
  proof (cases rule: readKVLoop_step [of m r env c w])
    case (skipped w1)
    with Cons.prems(1) obtain tr' where
      run: "readKVLoop env c rs m w1 = (res, w', tr')"
      and tr: "tr = (secretPath env r, None, None) # tr'"
      by (auto simp: emit_eq_iff)
    from Cons.prems(3) tr skipped(2) obtain i' where i: "i = Suc i'"
      by (cases i) auto
    from Cons.IH [OF run, of i'] Cons.prems(2,3) i show ?thesis
      by (simp add: tr)
  next
    case (stored s w1)
    with Cons.prems(1) obtain tr' where
      run: "readKVLoop env c rs (m(Key r \<mapsto> s)) (enrollSecretInLease env s w1) = (res, w', tr')"
      and tr: "tr = (secretPath env r, Some s, None) # tr'"
      by (auto simp: emit_eq_iff)
    from Cons.prems(3) tr obtain i' where i: "i = Suc i'"
      by (cases i) auto
    from Cons.IH [OF run, of i'] Cons.prems(2,3) i show ?thesis
      by (simp add: tr)
  qed (use Cons.prems(1,2) in auto)
qed

lemma duplicate_key_general:
  assumes run: "readKVLoop env c rs m w = (res, w', tr)"
    and ij: "i < j" and j: "j < length rs"
    and key: "Key (rs ! i) = Key (rs ! j)"
    and kept: "\<not> (IsMissingOk (rs ! i) \<and> i < length tr \<and> snd (tr ! i) = (None, None))"
  shows "(\<exists>f. res = Inl f) \<and> length tr \<le> j"
proof (cases "i < length tr")
  case False
  have "\<exists>f. res = Inl f"
  proof (cases res)
    case (Inl f)
    then show ?thesis by simp
  next
    case (Inr M)
    with run have "length tr = length rs" by (simp add: readKVLoop_length)
    with False ij j show ?thesis by simp
  qed
  with False ij show ?thesis by simp
next
  case True
  obtain p response err where ev: "tr ! i = (p, response, err)"
    by (metis prod_cases3)
  show ?thesis
  proof (cases "response = None")
    case False
    with ev have "fst (snd (tr ! i)) \<noteq> None" by simp
    from duplicate_key_inserted [OF run ij j key True this] show ?thesis .
  next
    case None: True
    from kept True ev None
    have "snd (snd (tr ! i)) \<noteq> None \<or> (snd (tr ! i) = (None, None) \<and> \<not> IsMissingOk (rs ! i))"
      by (cases err) auto
    from readKVLoop_failed_read_last [OF run True this] ij show ?thesis by simp
  qed
qed

lemmas demo_defs = readKVSecrets_def demo_env_def demo_Read_def secretPath_def emit_def
  req_def readKVLoop.simps Let_def prepend_def

lemmas demo_simps = demo_defs dup_requests_def shadowed_requests_def optional_requests_def
  strict_requests_def

section \<open>Facts about the retry loop\<close>

lemma Retry_success:
  "operation w = (None, w', es) \<Longrightarrow> Retry operation backOff w = (None, w', es)"
  by simp

lemma Retry_permanent:
  "operation w = (Some (Permanent err), w', es) \<Longrightarrow>
   Retry operation backOff w = (Some (OperationError err), w', es)"
  by simp

lemma Retry_timed_out:
  "operation w = (Some (Plain err), w', es) \<Longrightarrow> Retry operation [] w = (Some TimedOut, w', es)"
  by simp

lemma Retry_cancelled:
  "operation w = (Some (Plain err), w', es) \<Longrightarrow>
   Retry operation (Cancel # later) w = (Some ContextCancelled, w', es)"
  by simp

lemma Retry_wait:
  "operation w = (Some (Plain err), w', es) \<Longrightarrow>
   Retry operation (Wait # later) w = prepend es (Retry operation later w')"
  by simp

declare Retry.simps [simp del]

lemma op_cases:
  obtains
    (renewed) secret w' where "RenewSelf env c (Seconds env d) w = ((secret, None), w')"
      "op env c d w = (None, enrollAuthTokenInLease env secret w', [(Seconds env d, secret, None)])"
  | (denied) secret err w' where "RenewSelf env c (Seconds env d) w = ((secret, Some err), w')"
      "checkPermissionDenied err"
      "op env c d w = (Some (Permanent ErrPermissionDenied), w', [(Seconds env d, secret, Some err)])"
  | (transient) secret err w' where "RenewSelf env c (Seconds env d) w = ((secret, Some err), w')"
      "\<not> checkPermissionDenied err"
      "op env c d w = (Some (Plain err), w', [(Seconds env d, secret, Some err)])"
proof -
  obtain secret err w' where rd: "RenewSelf env c (Seconds env d) w = ((secret, err), w')"
    by (metis surj_pair)
  show thesis
  proof (cases err)
    case None
    with rd show ?thesis by (intro renewed [of secret w']) (simp_all add: op_def)
  next
    case (Some e)
    with rd show ?thesis
      by (cases "checkPermissionDenied e")
         (auto intro: denied [of secret e w'] transient [of secret e w'] simp: op_def)
  qed
qed

lemma Retry_op_denied_last:
  "Retry (op env c d) backOff w = (res, w', tr) \<Longrightarrow> i < length tr \<Longrightarrow>
   tr ! i = (n, secret, Some err) \<Longrightarrow> checkPermissionDenied err \<Longrightarrow>
   res = Some (OperationError ErrPermissionDenied) \<and> length tr = Suc i"
proof (induction backOff arbitrary: w res w' tr i)
  case Nil
  show ?case
  proof (cases rule: op_cases [of env c d w])
    case (renewed s w1)
    with Nil show ?thesis by (auto simp: Retry_success)
  next
    case (denied s e w1)
    with Nil show ?thesis by (auto simp: Retry_permanent)
  next
    case (transient s e w1)
    with Nil show ?thesis by (auto simp: Retry_timed_out)
  qed
next
  case (Cons t later)
  show ?case
  proof (cases rule: op_cases [of env c d w])
    case (renewed s w1)
    with Cons.prems show ?thesis by (auto simp: Retry_success)
  next
    case (denied s e w1)
    with Cons.prems show ?thesis by (auto simp: Retry_permanent)
  next
    case (transient s e w1)
    show ?thesis
    proof (cases t)
      case Cancel
      with transient Cons.prems show ?thesis by (auto simp: Retry_cancelled)
    next
      case Wait
      with transient Cons.prems(1) obtain tr' where
        run: "Retry (op env c d) later w1 = (res, w', tr')"
        and tr: "tr = (Seconds env d, s, Some e) # tr'"
        by (auto simp: Retry_wait prepend_eq_iff)
      from Cons.prems tr transient obtain i' where i: "i = Suc i'"
        by (cases i) auto
      from Cons.IH [OF run, of i'] Cons.prems i show ?thesis
        by (simp add: tr)
    qed
  qed
qed

lemmas renew_demo_simps = renewSelf_def Retry.simps op_def demo_renew_env_def demo_RenewSelf_def
  plain_denial_env_def checkPermissionDenied_def ErrPermissionDenied_def prepend_def Let_def

section \<open>Facts about token authentication\<close>

lemma after_pair: "after cs (r, cs') = (r, cs @ cs')"
  by (simp add: after_def)

lemma after_after: "after cs (after cs' x) = after (cs @ cs') x"
  by (cases x) (simp add: after_def)

lemma fst_after: "fst (after cs x) = fst x"
  by (cases x) (simp add: after_def)

lemma snd_after: "snd (after cs x) = cs @ snd x"
  by (cases x) (simp add: after_def)

lemma performTokenAuth_no_client:
  "NewClient env cfg = Inl err \<Longrightarrow>
   performTokenAuth env cfg token = ((None, None, Some err), [NewClientCall])"
  by (simp add: performTokenAuth_def after_def)

lemma performTokenAuth_lookup_failed:
  "NewClient env cfg = Inr client \<Longrightarrow>
   LookupSelf env (client\<lparr>Token := token\<rparr>) = (secret, Some err) \<Longrightarrow>
   performTokenAuth env cfg token = ((None, None, Some err), [NewClientCall, LookupSelfCall token])"
  by (simp add: performTokenAuth_def after_def)

lemma performTokenAuth_ok:
  "NewClient env cfg = Inr client \<Longrightarrow>
   LookupSelf env (client\<lparr>Token := token\<rparr>) = (secret, None) \<Longrightarrow>
   performTokenAuth env cfg token =
     ((Some (client\<lparr>Token := token\<rparr>), secret, None), [NewClientCall, LookupSelfCall token])"
  by (simp add: performTokenAuth_def after_def)

lemma performTokenAuth_calls:
  "snd (performTokenAuth env cfg token) =
     (case NewClient env cfg of Inl err \<Rightarrow> [NewClientCall]
      | Inr client \<Rightarrow> [NewClientCall, LookupSelfCall token])"
  by (auto simp: performTokenAuth_def after_def split: sum.splits prod.splits option.splits)

lemma snd_orFatal: "snd (orFatal mk x) = snd x"
  by (auto simp: orFatal_def split: prod.splits option.splits)

lemma token_auth_outcome:
  "(\<forall>err. NewClient env cfg = Inl err \<longrightarrow>
       orFatal mk (performTokenAuth env cfg token) = (Inl (mk err), [NewClientCall]))
   \<and> (\<forall>client. NewClient env cfg = Inr client \<longrightarrow>
        snd (orFatal mk (performTokenAuth env cfg token)) = [NewClientCall, LookupSelfCall token]
        \<and> (\<forall>secret. LookupSelf env (client\<lparr>Token := token\<rparr>) = (secret, None) \<longrightarrow>
              fst (orFatal mk (performTokenAuth env cfg token)) =
                Inr (Some (client\<lparr>Token := token\<rparr>), secret, None))
        \<and> (\<forall>secret err. LookupSelf env (client\<lparr>Token := token\<rparr>) = (secret, Some err) \<longrightarrow>
              fst (orFatal mk (performTokenAuth env cfg token)) = Inl (mk err)))"
proof (intro conjI allI impI)
  fix err
  assume "NewClient env cfg = Inl err"
  then show "orFatal mk (performTokenAuth env cfg token) = (Inl (mk err), [NewClientCall])"
    by (simp add: performTokenAuth_no_client orFatal_def)
next
  fix client
  assume "NewClient env cfg = Inr client"
  then show "snd (orFatal mk (performTokenAuth env cfg token)) = [NewClientCall, LookupSelfCall token]"
    by (simp add: snd_orFatal performTokenAuth_calls)
next
  fix client secret
  assume "NewClient env cfg = Inr client"
    "LookupSelf env (client\<lparr>Token := token\<rparr>) = (secret, None)"
  then show "fst (orFatal mk (performTokenAuth env cfg token)) =
      Inr (Some (client\<lparr>Token := token\<rparr>), secret, None)"
    by (simp add: performTokenAuth_ok orFatal_def)
next
  fix client secret err
  assume "NewClient env cfg = Inr client"
    "LookupSelf env (client\<lparr>Token := token\<rparr>) = (secret, Some err)"
  then show "fst (orFatal mk (performTokenAuth env cfg token)) = Inl (mk err)"
    by (simp add: performTokenAuth_lookup_failed orFatal_def)
qed

lemmas auth_demo_simps = demo_auth_env_def cluster_auth_env_def outside_auth_env_def

section \<open>The claims\<close>

text \<open>
  C1, as stated: a list with two entries of the same key makes the fetch fail before any
  store read for either entry. The code looks the key up in the mapping built so far
  (line 255), so the first entry is read before the second is seen: here the read of
  \<^verbatim>\<open>/a\<close> for the first \<^verbatim>\<open>db\<close> entry has been issued when the run ends with the
  duplicate-key exit.
\<close>

theorem duplicate_key_read_first_counterexample:
  "Key (dup_requests ! 0) = Key (dup_requests ! 1)
   \<and> readKVSecrets (demo_env dup_requests) demo_client 0 =
       (Inl (DuplicateSecretKey ''db''), 1,
        [(secretPath (demo_env dup_requests) (dup_requests ! 0), Some (demo_secret ''/a''), None)])"
  by (simp add: demo_simps)

text \<open>
  C1, amended: when two entries have the same key, the fetch ends in a fatal exit and the
  reads it has issued are those of at most the first \<open>j\<close> requests, so the later entry is
  never read; the earlier entry may have been read. This holds unless the earlier entry
  was read, got an empty result and was skipped under \<^verbatim>\<open>IsMissingOk\<close>.
\<close>

theorem duplicate_key_fatal_before_second_read:
  assumes "readKVSecrets env client w = (res, w', tr)"
    and "i < j" and "j < length (Secrets env)"
    and "Key (Secrets env ! i) = Key (Secrets env ! j)"
    and "\<not> (IsMissingOk (Secrets env ! i) \<and> i < length tr \<and> snd (tr ! i) = (None, None))"
  shows "(\<exists>f. res = Inl f) \<and> length tr \<le> j
    \<and> map fst tr = map (secretPath env) (take (length tr) (Secrets env))"
proof -
  from assms have "(\<exists>f. res = Inl f) \<and> length tr \<le> j"
    unfolding readKVSecrets_def by (rule duplicate_key_general)
  moreover from assms(1)
  have "map fst tr = map (secretPath env) (take (length tr) (Secrets env))"
    unfolding readKVSecrets_def by (simp add: readKVLoop_paths)
  ultimately show ?thesis by simp
qed

theorem duplicate_key_fatal_before_second_read_witness:
  "readKVSecrets (demo_env dup_requests) demo_client 0 =
     (Inl (DuplicateSecretKey ''db''), 1, [(''/a'', Some (demo_secret ''/a''), None)])
   \<and> secretPath (demo_env dup_requests) (dup_requests ! 1) = ''/b''"
proof -
  let ?tr = "[(''/a'', Some (demo_secret ''/a''), None)]"
  have run: "readKVSecrets (demo_env dup_requests) demo_client 0 =
      (Inl (DuplicateSecretKey ''db''), 1, ?tr)"
    by (simp add: demo_simps)
  have j: "1 < length (Secrets (demo_env dup_requests))"
    and key: "Key (Secrets (demo_env dup_requests) ! 0) = Key (Secrets (demo_env dup_requests) ! 1)"
    and kept: "\<not> (IsMissingOk (Secrets (demo_env dup_requests) ! 0) \<and> 0 < length ?tr
        \<and> snd (?tr ! 0) = (None, None))"
    by (simp_all add: demo_simps)
  from duplicate_key_fatal_before_second_read [OF run _ j key kept]
  have "length ?tr \<le> 1 \<and> map fst ?tr =
      map (secretPath (demo_env dup_requests)) (take (length ?tr) (Secrets (demo_env dup_requests)))"
    by simp
  then have "secretPath (demo_env dup_requests) (dup_requests ! 0) = ''/a''"
    by (simp add: demo_env_def dup_requests_def)
  moreover have "secretPath (demo_env dup_requests) (dup_requests ! 1) = ''/b''"
    by (simp add: demo_simps)
  ultimately show ?thesis using run by simp
qed

text \<open>
  C2: with a token in the leases file, authentication issues no call but the creation of
  the client and the self-lookup with that token, whatever the command line and the
  environment hold. When the client cannot be created or the lookup fails the run ends in
  the fatal exit of line 149; otherwise it returns the client carrying the lease token
  and the secret of the lookup.
\<close>

theorem lease_token_is_used_alone:
  assumes "leaseToken env \<noteq> ''''"
  shows "set (snd (authenticateToVault env)) \<subseteq> {NewClientCall, LookupSelfCall (leaseToken env)}
    \<and> (\<forall>err. NewClient env (DefaultConfig env) = Inl err \<longrightarrow>
          authenticateToVault env = (Inl (FailedLeaseToken err), [NewClientCall]))
    \<and> (\<forall>client. NewClient env (DefaultConfig env) = Inr client \<longrightarrow>
          snd (authenticateToVault env) = [NewClientCall, LookupSelfCall (leaseToken env)]
          \<and> (\<forall>secret. LookupSelf env (client\<lparr>Token := leaseToken env\<rparr>) = (secret, None) \<longrightarrow>
                fst (authenticateToVault env) =
                  Inr (Some (client\<lparr>Token := leaseToken env\<rparr>), secret, None))
          \<and> (\<forall>secret err. LookupSelf env (client\<lparr>Token := leaseToken env\<rparr>) = (secret, Some err) \<longrightarrow>
                fst (authenticateToVault env) = Inl (FailedLeaseToken err)))"
proof -
  have eq: "authenticateToVault env =
      orFatal FailedLeaseToken (performTokenAuth env (DefaultConfig env) (leaseToken env))"
    using assms by (simp add: authenticateToVault_def)
  have calls: "set (snd (authenticateToVault env)) \<subseteq> {NewClientCall, LookupSelfCall (leaseToken env)}"
    by (simp add: eq snd_orFatal performTokenAuth_calls split: sum.splits)
  from calls token_auth_outcome [of env "DefaultConfig env" FailedLeaseToken "leaseToken env"]
  show ?thesis
    unfolding eq by (intro conjI) blast+
qed

theorem lease_token_is_used_alone_witness:
  "vaultTokenArg demo_auth_env = ''s.flag'' \<and> envVaultToken demo_auth_env = ''s.env''
   \<and> authenticateToVault demo_auth_env =
       (Inr (Some (anon_client\<lparr>Token := ''s.lease''\<rparr>), Some login_secret, None),
        [NewClientCall, LookupSelfCall ''s.lease''])"
proof -
  have lease: "leaseToken demo_auth_env \<noteq> ''''"
    by (simp add: demo_auth_env_def)
  have client: "NewClient demo_auth_env (DefaultConfig demo_auth_env) = Inr anon_client"
    by (simp add: demo_auth_env_def)
  have lookup: "LookupSelf demo_auth_env (anon_client\<lparr>Token := leaseToken demo_auth_env\<rparr>) =
      (Some login_secret, None)"
    by (simp add: demo_auth_env_def)
  from lease_token_is_used_alone [OF lease] client lookup
  have "snd (authenticateToVault demo_auth_env) =
      [NewClientCall, LookupSelfCall (leaseToken demo_auth_env)]"
    and "fst (authenticateToVault demo_auth_env) =
      Inr (Some (anon_client\<lparr>Token := leaseToken demo_auth_env\<rparr>), Some login_secret, None)"
    by blast+
  then show ?thesis
    by (cases "authenticateToVault demo_auth_env") (simp add: demo_auth_env_def)
qed

text \<open>
  C3: a renewal attempt whose error carries \<^verbatim>\<open>Code: 403\<close> is handed to the retry policy
  as \<^verbatim>\<open>backoff.Permanent(ErrPermissionDenied)\<close>, and \<^verbatim>\<open>renewSelf\<close> returns
  \<^verbatim>\<open>ErrPermissionDenied\<close> with that attempt as its last, whatever the policy would still
  allow: in every run, an attempt with such an error is the last of the run.
\<close>

theorem permission_denied_stops_renewal:
  "(\<forall>secret err w1.
      RenewSelf env client (Seconds env duration) w = ((secret, Some err), w1) \<longrightarrow>
      checkPermissionDenied err \<longrightarrow>
        fst (op env client duration w) = Some (Permanent ErrPermissionDenied)
        \<and> renewSelf env backOff client duration w =
            (Some (OperationError ErrPermissionDenied), w1, [(Seconds env duration, secret, Some err)]))
   \<and> (\<forall>res w' tr i n secret err.
        renewSelf env backOff client duration w = (res, w', tr) \<longrightarrow>
        i < length tr \<longrightarrow> tr ! i = (n, secret, Some err) \<longrightarrow> checkPermissionDenied err \<longrightarrow>
          res = Some (OperationError ErrPermissionDenied) \<and> length tr = Suc i)"
proof (intro conjI allI impI)
  fix secret err w1
  assume rd: "RenewSelf env client (Seconds env duration) w = ((secret, Some err), w1)"
    and denied: "checkPermissionDenied err"
  then have op: "op env client duration w =
      (Some (Permanent ErrPermissionDenied), w1, [(Seconds env duration, secret, Some err)])"
    by (simp add: op_def)
  then show "fst (op env client duration w) = Some (Permanent ErrPermissionDenied)"
    by simp
  from op show "renewSelf env backOff client duration w =
      (Some (OperationError ErrPermissionDenied), w1, [(Seconds env duration, secret, Some err)])"
    by (simp add: renewSelf_def Retry_permanent)
next
  fix res w' tr i n secret err
  assume "renewSelf env backOff client duration w = (res, w', tr)" "i < length tr"
    "tr ! i = (n, secret, Some err)" "checkPermissionDenied err"
  then have "res = Some (OperationError ErrPermissionDenied) \<and> length tr = Suc i"
    unfolding renewSelf_def by (rule Retry_op_denied_last)
  then show "res = Some (OperationError ErrPermissionDenied)" and "length tr = Suc i"
    by simp_all
qed

theorem permission_denied_stops_renewal_witness:
  "renewSelf demo_renew_env [Wait, Wait, Wait] demo_client 60000000000 0 =
     (Some (OperationError ''permission denied''), 2,
      [(60, None, Some ''connection reset by peer''),
       (60, None, Some ''Error making API request. Code: 403. Errors: * permission denied'')])"
proof -
  let ?denied = "''Error making API request. Code: 403. Errors: * permission denied''"
  have run: "renewSelf demo_renew_env [Wait, Wait, Wait] demo_client 60000000000 0 =
     (Some (OperationError ''permission denied''), 2,
      [(60, None, Some ''connection reset by peer''), (60, None, Some ?denied)])"
    by (simp add: renew_demo_simps)
  have denied: "checkPermissionDenied ?denied"
    by (simp add: checkPermissionDenied_def)
  from permission_denied_stops_renewal
    [of demo_renew_env demo_client 60000000000 0 "[Wait, Wait, Wait]"]
  have "\<forall>res w' tr i n secret err.
        renewSelf demo_renew_env [Wait, Wait, Wait] demo_client 60000000000 0 = (res, w', tr) \<longrightarrow>
        i < length tr \<longrightarrow> tr ! i = (n, secret, Some err) \<longrightarrow> checkPermissionDenied err \<longrightarrow>
          res = Some (OperationError ErrPermissionDenied) \<and> length tr = Suc i"
    by (rule conjunct2)
  from this [rule_format, OF run, of 1 60 None ?denied] denied
  have "Some (OperationError ''permission denied'') = Some (OperationError ErrPermissionDenied)"
    by simp
  with run show ?thesis by simp
qed




text \<open>
  C5: with no token in the leases file, on the command line or in the environment, and a
  cluster whose list of \<^verbatim>\<open>vault-token\<close> ConfigMaps has exactly one entry with a
  \<^verbatim>\<open>token\<close> field, authentication is the token authentication with that token: the
  self-lookup is issued with it, and its outcome is the outcome of the run.
\<close>

theorem configmap_token_is_used:
  assumes "leaseToken env = ''''" and "vaultTokenArg env = ''''" and "envVaultToken env = ''''"
    and "InClusterConfig env = None" and "NewForConfig env = None"
    and "ListConfigMaps env = Inr [cm]" and "Data cm ''token'' = Some token"
  shows "(\<forall>err. NewClient env (DefaultConfig env) = Inl err \<longrightarrow>
          authenticateToVault env =
            (Inl (FailedConfigMapToken err),
             [InClusterConfigCall, NewForConfigCall, ListConfigMapsCall, NewClientCall]))
    \<and> (\<forall>client. NewClient env (DefaultConfig env) = Inr client \<longrightarrow>
          snd (authenticateToVault env) =
            [InClusterConfigCall, NewForConfigCall, ListConfigMapsCall,
             NewClientCall, LookupSelfCall token]
          \<and> (\<forall>secret. LookupSelf env (client\<lparr>Token := token\<rparr>) = (secret, None) \<longrightarrow>
                fst (authenticateToVault env) = Inr (Some (client\<lparr>Token := token\<rparr>), secret, None))
          \<and> (\<forall>secret err. LookupSelf env (client\<lparr>Token := token\<rparr>) = (secret, Some err) \<longrightarrow>
                fst (authenticateToVault env) = Inl (FailedConfigMapToken err)))"
proof -
  let ?auth = "orFatal FailedConfigMapToken (performTokenAuth env (DefaultConfig env) token)"
  have eq: "authenticateToVault env =
      after [InClusterConfigCall, NewForConfigCall, ListConfigMapsCall] ?auth"
    using assms by (simp add: authenticateToVault_def after_after)
  have fst_eq: "fst (authenticateToVault env) = fst ?auth"
    by (simp add: eq fst_after)
  have snd_eq: "snd (authenticateToVault env) =
      [InClusterConfigCall, NewForConfigCall, ListConfigMapsCall] @ snd ?auth"
    by (simp add: eq snd_after)
  note out = token_auth_outcome [of env "DefaultConfig env" FailedConfigMapToken token]
  show ?thesis
  proof (intro conjI allI impI)
    fix err
    assume "NewClient env (DefaultConfig env) = Inl err"
    with out have "?auth = (Inl (FailedConfigMapToken err), [NewClientCall])" by blast
    then show "authenticateToVault env =
        (Inl (FailedConfigMapToken err),
         [InClusterConfigCall, NewForConfigCall, ListConfigMapsCall, NewClientCall])"
      by (simp add: eq after_pair)
  next
    fix client
    assume "NewClient env (DefaultConfig env) = Inr client"
    with out have "snd ?auth = [NewClientCall, LookupSelfCall token]" by blast
    then show "snd (authenticateToVault env) =
        [InClusterConfigCall, NewForConfigCall, ListConfigMapsCall, NewClientCall, LookupSelfCall token]"
      by (simp add: snd_eq)
  next
    fix client secret
    assume "NewClient env (DefaultConfig env) = Inr client"
      "LookupSelf env (client\<lparr>Token := token\<rparr>) = (secret, None)"
    with out have "fst ?auth = Inr (Some (client\<lparr>Token := token\<rparr>), secret, None)" by blast
    then show "fst (authenticateToVault env) = Inr (Some (client\<lparr>Token := token\<rparr>), secret, None)"
      by (simp add: fst_eq)
  next
    fix client secret err
    assume "NewClient env (DefaultConfig env) = Inr client"
      "LookupSelf env (client\<lparr>Token := token\<rparr>) = (secret, Some err)"
    with out have "fst ?auth = Inl (FailedConfigMapToken err)" by blast
    then show "fst (authenticateToVault env) = Inl (FailedConfigMapToken err)"
      by (simp add: fst_eq)
  qed
qed

theorem configmap_token_is_used_witness:
  "authenticateToVault cluster_auth_env =
     (Inr (Some (anon_client\<lparr>Token := ''s.configmap''\<rparr>), Some login_secret, None),
      [InClusterConfigCall, NewForConfigCall, ListConfigMapsCall,
       NewClientCall, LookupSelfCall ''s.configmap''])"
proof -
  let ?cm = "\<lparr>Name = ''vault-token'', Data = [''token'' \<mapsto> ''s.configmap'']\<rparr>"
  have none: "leaseToken cluster_auth_env = ''''" "vaultTokenArg cluster_auth_env = ''''"
    "envVaultToken cluster_auth_env = ''''"
    by (simp_all add: auth_demo_simps)
  have cluster: "InClusterConfig cluster_auth_env = None" "NewForConfig cluster_auth_env = None"
    "ListConfigMaps cluster_auth_env = Inr [?cm]"
    by (simp_all add: auth_demo_simps)
  have token: "Data ?cm ''token'' = Some ''s.configmap''"
    by simp
  have client: "NewClient cluster_auth_env (DefaultConfig cluster_auth_env) = Inr anon_client"
    by (simp add: auth_demo_simps)
  have lookup: "LookupSelf cluster_auth_env (anon_client\<lparr>Token := ''s.configmap''\<rparr>) =
      (Some login_secret, None)"
    by (simp add: auth_demo_simps)
  from configmap_token_is_used [OF none cluster token] client lookup
  have "snd (authenticateToVault cluster_auth_env) =
      [InClusterConfigCall, NewForConfigCall, ListConfigMapsCall,
       NewClientCall, LookupSelfCall ''s.configmap'']"
    and "fst (authenticateToVault cluster_auth_env) =
      Inr (Some (anon_client\<lparr>Token := ''s.configmap''\<rparr>), Some login_secret, None)"
    by blast+
  then show ?thesis
    by (cases "authenticateToVault cluster_auth_env") simp
qed

text \<open>
  C6: with no token in the leases file, on the command line or in the environment, when
  the in-cluster configuration, the client set or the ConfigMap list fails, the run
  issues none but these Kubernetes calls before it goes on to the role: its outcome is
  that of \<^verbatim>\<open>performKubernetesAuth\<close> when a role is configured, and the exit of line 233
  when none is.
\<close>

theorem fallback_lookup_error_is_skipped:
  assumes "leaseToken env = ''''" and "vaultTokenArg env = ''''" and "envVaultToken env = ''''"
    and "InClusterConfig env \<noteq> None \<or> NewForConfig env \<noteq> None \<or> (\<exists>err. ListConfigMaps env = Inl err)"
  shows "\<exists>cs. set cs \<subseteq> {InClusterConfigCall, NewForConfigCall, ListConfigMapsCall}
    \<and> authenticateToVault env =
        after cs (if k8sAuthRole env \<noteq> '''' then performKubernetesAuth env
                  else (Inl NoAuthenticationMechanism, []))"
proof -
  let ?role = "if k8sAuthRole env \<noteq> '''' then performKubernetesAuth env
               else (Inl NoAuthenticationMechanism, [])"
  have role: "kubernetesAuthRole env = ?role"
    by (simp add: kubernetesAuthRole_def)
  show ?thesis
  proof (cases "InClusterConfig env")
    case (Some e)
    with assms(1-3) have "authenticateToVault env = after [InClusterConfigCall] ?role"
      by (simp add: authenticateToVault_def role)
    then show ?thesis by (intro exI [of _ "[InClusterConfigCall]"]) simp
  next
    case None
    note inCluster = None
    show ?thesis
    proof (cases "NewForConfig env")
      case (Some e)
      with assms(1-3) inCluster
      have "authenticateToVault env = after [InClusterConfigCall, NewForConfigCall] ?role"
        by (simp add: authenticateToVault_def role after_after)
      then show ?thesis by (intro exI [of _ "[InClusterConfigCall, NewForConfigCall]"]) simp
    next
      case None
      with assms(4) inCluster obtain err where "ListConfigMaps env = Inl err" by auto
      with assms(1-3) inCluster None
      have "authenticateToVault env =
          after [InClusterConfigCall, NewForConfigCall, ListConfigMapsCall] ?role"
        by (simp add: authenticateToVault_def role after_after)
      then show ?thesis
        by (intro exI [of _ "[InClusterConfigCall, NewForConfigCall, ListConfigMapsCall]"]) simp
    qed
  qed
qed


theorem fallback_lookup_error_is_skipped_witness:
  "fst (authenticateToVault outside_auth_env) =
     Inr (Some (anon_client\<lparr>Token := ''s.k8s''\<rparr>), Some login_secret, None)
   \<and> snd (authenticateToVault outside_auth_env) =
     [InClusterConfigCall, NewClientCall,
      ReadFileCall ''/var/run/secrets/kubernetes.io/serviceaccount/token'',
      LoginCall ''/v1/auth/kubernetes/login'' ''jwt'' ''app'']"
proof -
  have none: "leaseToken outside_auth_env = ''''" "vaultTokenArg outside_auth_env = ''''"
    "envVaultToken outside_auth_env = ''''"
    by (simp_all add: auth_demo_simps)
  have outside: "InClusterConfig outside_auth_env \<noteq> None \<or> NewForConfig outside_auth_env \<noteq> None
      \<or> (\<exists>err. ListConfigMaps outside_auth_env = Inl err)"
    by (simp add: auth_demo_simps)
  have role: "k8sAuthRole outside_auth_env \<noteq> ''''"
    by (simp add: auth_demo_simps)
  have k8s: "performKubernetesAuth outside_auth_env =
      (Inr (Some (anon_client\<lparr>Token := ''s.k8s''\<rparr>), Some login_secret, None),
       [NewClientCall, ReadFileCall ''/var/run/secrets/kubernetes.io/serviceaccount/token'',
        LoginCall ''/v1/auth/kubernetes/login'' ''jwt'' ''app''])"
    by (simp add: performKubernetesAuth_def auth_demo_simps after_def Let_def)
  from fallback_lookup_error_is_skipped [OF none outside] role obtain cs where
    "authenticateToVault outside_auth_env = after cs (performKubernetesAuth outside_auth_env)"
    by auto
  then have "fst (authenticateToVault outside_auth_env) = fst (performKubernetesAuth outside_auth_env)"
    by (simp add: fst_after)
  then have first: "fst (authenticateToVault outside_auth_env) =
      Inr (Some (anon_client\<lparr>Token := ''s.k8s''\<rparr>), Some login_secret, None)"
    by (simp add: k8s)
  have calls: "snd (authenticateToVault outside_auth_env) =
     [InClusterConfigCall, NewClientCall,
      ReadFileCall ''/var/run/secrets/kubernetes.io/serviceaccount/token'',
      LoginCall ''/v1/auth/kubernetes/login'' ''jwt'' ''app'']"
  proof -
    have inc: "InClusterConfig outside_auth_env = Some ''unable to load in-cluster configuration''"
      by (simp add: auth_demo_simps)
    have "authenticateToVault outside_auth_env =
        after [InClusterConfigCall] (performKubernetesAuth outside_auth_env)"
      by (simp add: authenticateToVault_def kubernetesAuthRole_def none role inc)
    then show ?thesis
      by (simp add: k8s after_def)
  qed
  from first calls show ?thesis by simp
qed

text \<open>
  C7: the path handed to the store is the configured path itself when that starts with
  \<^verbatim>\<open>/\<close>, and \<^verbatim>\<open>filepath.Join\<close> of the prefix and the configured path otherwise; the
  \<open>i\<close>-th read of a fetch goes to that path of the \<open>i\<close>-th request.
\<close>

theorem effective_store_path:
  "secretPath env request =
     (if take 1 (Path request) = ''/'' then Path request
      else Join env (serviceSecretPrefix env) (Path request))
   \<and> (\<forall>i<length (snd (snd (readKVSecrets env client w))).
         fst (snd (snd (readKVSecrets env client w)) ! i) = secretPath env (Secrets env ! i))"
proof
  show "secretPath env request =
     (if take 1 (Path request) = ''/'' then Path request
      else Join env (serviceSecretPrefix env) (Path request))"
    by (simp add: secretPath_def HasPrefix_slash)
next
  obtain res w' tr where run: "readKVLoop env client (Secrets env) Map.empty w = (res, w', tr)"
    by (metis prod_cases3)
  from readKVLoop_paths [OF run]
  have len: "length tr \<le> length (Secrets env)"
    and paths: "map fst tr = map (secretPath env) (take (length tr) (Secrets env))"
    by simp_all
  have "fst (tr ! i) = secretPath env (Secrets env ! i)" if "i < length tr" for i
  proof -
    have "fst (tr ! i) = map fst tr ! i" using that by simp
    also have "\<dots> = map (secretPath env) (take (length tr) (Secrets env)) ! i"
      by (simp only: paths)
    also have "\<dots> = secretPath env (Secrets env ! i)"
      using that len by simp
    finally show ?thesis .
  qed
  then show "\<forall>i<length (snd (snd (readKVSecrets env client w))).
         fst (snd (snd (readKVSecrets env client w)) ! i) = secretPath env (Secrets env ! i)"
    by (simp add: readKVSecrets_def run)
qed


theorem effective_store_path_witness:
  "secretPath (demo_env optional_requests) (req ''a'' ''/a'' False) = ''/a''
   \<and> secretPath (demo_env optional_requests) (req ''opt'' ''absent'' True) = ''svc/absent''
   \<and> map fst (snd (snd (readKVSecrets (demo_env optional_requests) demo_client 0))) =
       [''/a'', ''svc/absent'', ''/b'']"
proof -
  have run: "snd (snd (readKVSecrets (demo_env optional_requests) demo_client 0)) =
      [(''/a'', Some (demo_secret ''/a''), None), (''svc/absent'', None, None),
       (''/b'', Some (demo_secret ''/b''), None)]"
    by (simp add: demo_simps)
  from effective_store_path [of "demo_env optional_requests" "req ''a'' ''/a'' False" demo_client 0]
  have a: "secretPath (demo_env optional_requests) (req ''a'' ''/a'' False) = ''/a''"
    by (simp add: req_def)
  from effective_store_path [of "demo_env optional_requests" "req ''opt'' ''absent'' True" demo_client 0]
  have b: "secretPath (demo_env optional_requests) (req ''opt'' ''absent'' True) = ''svc/absent''"
    by (simp add: req_def demo_env_def)
  from a b run show ?thesis by simp
qed

text \<open>
  C8: \<^verbatim>\<open>revokeSelf\<close> returns without a fatal exit whatever the revoke call answers; the
  call is issued once, and an error of it appears in the ERROR log line only.
\<close>

theorem revoke_failure_is_only_logged:
  "fst (revokeSelf env client w) = Inr ()
   \<and> fst (snd (revokeSelf env client w)) = snd (RevokeSelf env client (Token client) w)
   \<and> (\<forall>err. fst (RevokeSelf env client (Token client) w) = Some err \<longrightarrow>
         snd (snd (revokeSelf env client w)) =
           [(DEBUG, ''Revoking Vault token.'', []),
            (ERROR, ''Failed to revoke Vault token. This will leave credentials around in %q Vault: %v'',
             [Address client, err])])"
  by (cases "RevokeSelf env client (Token client) w")
     (auto simp: revokeSelf_def emit_def split: option.splits)

theorem revoke_failure_is_only_logged_witness:
  "revokeSelf demo_revoke_env demo_client 0 =
     (Inr (), 1,
      [(DEBUG, ''Revoking Vault token.'', []),
       (ERROR, ''Failed to revoke Vault token. This will leave credentials around in %q Vault: %v'',
        [''https://vault:8200'', ''connection refused''])])"
proof -
  have call: "RevokeSelf demo_revoke_env demo_client (Token demo_client) 0 = (Some ''connection refused'', 1)"
    by (simp add: demo_revoke_env_def)
  from revoke_failure_is_only_logged [of demo_revoke_env demo_client 0] call
  show ?thesis
    by (cases "revokeSelf demo_revoke_env demo_client 0") (simp add: demo_client_def)
qed

text \<open>
  C9: when the loop reaches a request, it ends there with the duplicate-key exit exactly
  when an earlier request of the same key got a result (which was then stored in the
  mapping). When every earlier request of that key got nothing, the request is read like
  any other, and a result it gets is stored under the key.
\<close>

theorem duplicate_detected_iff_earlier_inserted:
  assumes all: "Secrets env = pre @ request # post"
    and pre: "readKVLoop env client pre Map.empty w0 = (Inr m, w, tr)"
  shows "(readKVSecrets env client w0 = (Inl (DuplicateSecretKey (Key request)), w, tr)
           \<longleftrightarrow> (\<exists>i<length pre. Key (pre ! i) = Key request \<and> fst (snd (tr ! i)) \<noteq> None))
       \<and> ((\<forall>i<length pre. Key (pre ! i) = Key request \<longrightarrow> fst (snd (tr ! i)) = None) \<longrightarrow>
            (\<exists>response err w1 rest.
                Read env client (secretPath env request) w = ((response, err), w1) \<and>
                snd (snd (readKVSecrets env client w0)) =
                  tr @ (secretPath env request, response, err) # rest)
            \<and> (\<forall>s w1. Read env client (secretPath env request) w = ((Some s, None), w1) \<longrightarrow>
                  readKVSecrets env client w0 =
                    prepend (tr @ [(secretPath env request, Some s, None)])
                      (readKVLoop env client post (m(Key request \<mapsto> s))
                         (enrollSecretInLease env s w1))))"
proof -
  let ?earlier = "\<exists>i<length pre. Key (pre ! i) = Key request \<and> fst (snd (tr ! i)) \<noteq> None"
  have whole: "readKVSecrets env client w0 = prepend tr (readKVLoop env client (request # post) m w)"
    unfolding readKVSecrets_def all by (rule readKVLoop_append [OF pre])
  have dom: "m (Key request) \<noteq> None \<longleftrightarrow> ?earlier"
    using readKVLoop_dom [OF pre, of "Key request"] by simp
  obtain response err w1 where rd: "Read env client (secretPath env request) w = ((response, err), w1)"
    by (metis surj_pair)
  have hit: "readKVSecrets env client w0 = (Inl (DuplicateSecretKey (Key request)), w, tr)"
    if "m (Key request) \<noteq> None"
    using that by (simp add: whole readKVLoop_dup prepend_triple)
  have issued: "\<exists>rest. snd (snd (readKVSecrets env client w0)) =
      tr @ (secretPath env request, response, err) # rest"
    if nodup: "m (Key request) = None"
  proof (cases err)
    case (Some e)
    with nodup rd show ?thesis
      by (simp add: whole readKVLoop_err prepend_triple)
  next
    case None
    note noerr = None
    show ?thesis
    proof (cases response)
      case None
      with nodup rd noerr show ?thesis
        by (cases "IsMissingOk request";
            cases "readKVLoop env client post m w1")
           (simp_all add: whole readKVLoop_missing_ok readKVLoop_missing_fatal prepend_triple emit_eq)
    next
      case (Some s)
      with nodup rd noerr show ?thesis
        by (cases "readKVLoop env client post (m(Key request \<mapsto> s)) (enrollSecretInLease env s w1)")
           (simp add: whole readKVLoop_data prepend_triple emit_eq)
    qed
  qed
  have miss: "readKVSecrets env client w0 \<noteq> (Inl (DuplicateSecretKey (Key request)), w, tr)"
    if nodup: "m (Key request) = None"
  proof
    assume eq: "readKVSecrets env client w0 = (Inl (DuplicateSecretKey (Key request)), w, tr)"
    from issued [OF nodup] obtain rest where
      "snd (snd (readKVSecrets env client w0)) = tr @ (secretPath env request, response, err) # rest"
      by blast
    with eq show False by simp
  qed
  have stored: "readKVSecrets env client w0 =
      prepend (tr @ [(secretPath env request, Some s, None)])
        (readKVLoop env client post (m(Key request \<mapsto> s)) (enrollSecretInLease env s w2))"
    if nodup: "m (Key request) = None"
      and rd2: "Read env client (secretPath env request) w = ((Some s, None), w2)" for s w2
    using nodup rd2 by (simp add: whole readKVLoop_data prepend_emit)
  have iff: "readKVSecrets env client w0 = (Inl (DuplicateSecretKey (Key request)), w, tr)
      \<longleftrightarrow> ?earlier"
  proof (cases "m (Key request) = None")
    case True
    with miss dom show ?thesis by simp
  next
    case False
    with hit dom show ?thesis by simp
  qed
  have none: "m (Key request) = None"
    if "\<forall>i<length pre. Key (pre ! i) = Key request \<longrightarrow> fst (snd (tr ! i)) = None"
    using that dom by (cases "m (Key request)") auto
  show ?thesis
  proof (intro conjI impI allI)
    show "readKVSecrets env client w0 = (Inl (DuplicateSecretKey (Key request)), w, tr)
      \<longleftrightarrow> ?earlier"
      by (rule iff)
  next
    assume "\<forall>i<length pre. Key (pre ! i) = Key request \<longrightarrow> fst (snd (tr ! i)) = None"
    then have "m (Key request) = None" by (rule none)
    from issued [OF this] rd
    show "\<exists>response err w1 rest.
        Read env client (secretPath env request) w = ((response, err), w1) \<and>
        snd (snd (readKVSecrets env client w0)) =
          tr @ (secretPath env request, response, err) # rest"
      by blast
  next
    fix s w2
    assume "\<forall>i<length pre. Key (pre ! i) = Key request \<longrightarrow> fst (snd (tr ! i)) = None"
      and rd2: "Read env client (secretPath env request) w = ((Some s, None), w2)"
    then have "m (Key request) = None" by (intro none)
    from stored [OF this rd2]
    show "readKVSecrets env client w0 =
        prepend (tr @ [(secretPath env request, Some s, None)])
          (readKVLoop env client post (m(Key request \<mapsto> s)) (enrollSecretInLease env s w2))" .
  qed
qed


theorem duplicate_detected_iff_earlier_inserted_witness:
  "readKVSecrets (demo_env dup_requests) demo_client 0 =
     (Inl (DuplicateSecretKey ''db''), 1, [(''/a'', Some (demo_secret ''/a''), None)])
   \<and> readKVSecrets (demo_env shadowed_requests) demo_client 0 =
     (Inr [''db'' \<mapsto> demo_secret ''/b''], 2,
      [(''svc/absent'', None, None), (''/b'', Some (demo_secret ''/b''), None)])"
proof -
  have all1: "Secrets (demo_env dup_requests) = [req ''db'' ''/a'' False] @ req ''db'' ''/b'' False # []"
    by (simp add: demo_simps)
  have pre1: "readKVLoop (demo_env dup_requests) demo_client [req ''db'' ''/a'' False] Map.empty 0
      = (Inr [''db'' \<mapsto> demo_secret ''/a''], 1, [(''/a'', Some (demo_secret ''/a''), None)])"
    by (simp add: demo_simps)
  from duplicate_detected_iff_earlier_inserted [OF all1 pre1]
  have hit: "readKVSecrets (demo_env dup_requests) demo_client 0 =
     (Inl (DuplicateSecretKey ''db''), 1, [(''/a'', Some (demo_secret ''/a''), None)])"
    by (simp add: req_def)
  have all2: "Secrets (demo_env shadowed_requests) =
      [req ''db'' ''absent'' True] @ req ''db'' ''/b'' False # []"
    by (simp add: demo_simps)
  have pre2: "readKVLoop (demo_env shadowed_requests) demo_client [req ''db'' ''absent'' True] Map.empty 0
      = (Inr Map.empty, 1, [(''svc/absent'', None, None)])"
    by (simp add: demo_simps)
  have rd2: "Read (demo_env shadowed_requests) demo_client
      (secretPath (demo_env shadowed_requests) (req ''db'' ''/b'' False)) 1
      = ((Some (demo_secret ''/b''), None), 2)"
    by (simp add: demo_simps)
  from duplicate_detected_iff_earlier_inserted [OF all2 pre2] rd2
  have miss: "readKVSecrets (demo_env shadowed_requests) demo_client 0 =
     (Inr [''db'' \<mapsto> demo_secret ''/b''], 2,
      [(''svc/absent'', None, None), (''/b'', Some (demo_secret ''/b''), None)])"
    by (simp add: demo_simps)
  from hit miss show ?thesis by simp
qed

text \<open>
  C10: for a failed renewal attempt, the closure returns the permanent error exactly when
  the text of the Vault's error has \<^verbatim>\<open>Code: 403\<close> in it; otherwise it returns the error
  itself, and when the policy waits the next attempt follows.
\<close>

theorem permanent_iff_code_403:
  assumes "RenewSelf env client (Seconds env duration) w = ((secret, Some err), w1)"
  shows "(fst (op env client duration w) = Some (Permanent ErrPermissionDenied)
            \<longleftrightarrow> (\<exists>p q. err = p @ ''Code: 403'' @ q))
       \<and> (\<not> (\<exists>p q. err = p @ ''Code: 403'' @ q) \<longrightarrow>
            fst (op env client duration w) = Some (Plain err)
            \<and> renewSelf env (Wait # backOff) client duration w =
                emit (Seconds env duration, secret, Some err)
                  (renewSelf env backOff client duration w1))"
proof -
  have chk: "checkPermissionDenied err \<longleftrightarrow> (\<exists>p q. err = p @ ''Code: 403'' @ q)"
    by (simp add: checkPermissionDenied_def Contains_sublist sublist_def)
  show ?thesis
  proof (cases "checkPermissionDenied err")
    case True
    with assms have "op env client duration w =
        (Some (Permanent ErrPermissionDenied), w1, [(Seconds env duration, secret, Some err)])"
      by (simp add: op_def)
    with True chk show ?thesis by simp
  next
    case False
    with assms have op: "op env client duration w =
        (Some (Plain err), w1, [(Seconds env duration, secret, Some err)])"
      by (simp add: op_def)
    have "renewSelf env (Wait # backOff) client duration w =
        emit (Seconds env duration, secret, Some err) (renewSelf env backOff client duration w1)"
      unfolding renewSelf_def
      using Retry_wait [of "op env client duration" w err w1 _ backOff, OF op]
      by (cases "Retry (op env client duration) backOff w1") (simp add: prepend_def emit_def)
    with False chk op show ?thesis by simp
  qed
qed

theorem permanent_iff_code_403_witness:
  "fst (op demo_renew_env demo_client 60000000000 1) = Some (Permanent ErrPermissionDenied)
   \<and> fst (op plain_denial_env demo_client 60000000000 0) = Some (Plain ''permission denied'')
   \<and> renewSelf plain_denial_env [Wait] demo_client 60000000000 0 =
       (Some TimedOut, 2, [(60, None, Some ''permission denied''), (60, None, Some ''permission denied'')])"
proof -
  let ?denied = "''Error making API request. Code: 403. Errors: * permission denied''"
  have rd1: "RenewSelf demo_renew_env demo_client (Seconds demo_renew_env 60000000000) 1 =
      ((None, Some ?denied), 2)"
    by (simp add: demo_renew_env_def demo_RenewSelf_def)
  have has: "\<exists>p q. ?denied = p @ ''Code: 403'' @ q"
  proof (intro exI)
    show "?denied = ''Error making API request. '' @ ''Code: 403'' @ ''. Errors: * permission denied''"
      by simp
  qed
  from permanent_iff_code_403 [OF rd1] has
  have a: "fst (op demo_renew_env demo_client 60000000000 1) = Some (Permanent ErrPermissionDenied)"
    by blast
  have rd2: "RenewSelf plain_denial_env demo_client (Seconds plain_denial_env 60000000000) 0 =
      ((None, Some ''permission denied''), 1)"
    by (simp add: plain_denial_env_def)
  have hasnt: "\<not> (\<exists>p q. ''permission denied'' = p @ ''Code: 403'' @ q)"
    using Contains_sublist [of "''permission denied''" "''Code: 403''"]
    by (simp add: sublist_def)
  from permanent_iff_code_403 [OF rd2, of "[]"] hasnt
  have b: "fst (op plain_denial_env demo_client 60000000000 0) = Some (Plain ''permission denied'')"
    and c: "renewSelf plain_denial_env [Wait] demo_client 60000000000 0 =
        emit (Seconds plain_denial_env 60000000000, None, Some ''permission denied'')
          (renewSelf plain_denial_env [] demo_client 60000000000 1)"
    by blast+
  have d: "renewSelf plain_denial_env [] demo_client 60000000000 1 =
      (Some TimedOut, 2, [(60, None, Some ''permission denied'')])"
    by (simp add: renew_demo_simps)
  from a b c d show ?thesis
    by (simp add: emit_def plain_denial_env_def)
qed

end
